theory Spec2Isabelle
  imports Complex_Main
begin

section \<open>The recursive radix-2 FFT of \<^verbatim>\<open>fft_recursivo.py\<close>\<close>

text \<open>
  The source function:
  \<^verbatim>\<open>
  def fft(x):
      N = len(x)
      if N <= 1:
          return x
      elif N % 2 != 0:
          raise ValueError("Tamanho da entrada deve ser potencia de 2.")

      X_even = fft(x[::2])
      X_odd = fft(x[1::2])
      factor = np.exp(-2j * np.pi * np.arange(N) / N)

      return np.concatenate([X_even + factor[:N // 2] * X_odd,
                             X_even - factor[:N // 2] * X_odd])
  \<close>
  Samples are modelled as exact complex numbers (type \<open>complex\<close>), a sequence as a
  list. The rounding of double-precision arithmetic is not part of the model. The
  raised \<^verbatim>\<open>ValueError\<close> is the left injection of a sum type.
\<close>

subsection \<open>Data model\<close>

datatype error = ValueError

text \<open>The slice \<^verbatim>\<open>x[::2]\<close>: the elements at positions 0, 2, 4, ...\<close>

fun slice_step2 :: "'a list \<Rightarrow> 'a list" where
  "slice_step2 [] = []"
| "slice_step2 [a] = [a]"
| "slice_step2 (a # b # xs) = a # slice_step2 xs"

text \<open>The slice \<^verbatim>\<open>x[s::2]\<close>: drop the first \<open>s\<close> elements, then take every second one.\<close>

definition slice_from_step2 :: "nat \<Rightarrow> 'a list \<Rightarrow> 'a list" where
  "slice_from_step2 s x = slice_step2 (drop s x)"

text \<open>\<^verbatim>\<open>np.arange(N)\<close>, read as complex numbers.\<close>

definition arange :: "nat \<Rightarrow> complex list" where
  "arange N = map of_nat [0..<N]"

text \<open>\<^verbatim>\<open>np.exp(-2j * np.pi * np.arange(N) / N)\<close>: the N twiddle factors.\<close>

definition factor :: "nat \<Rightarrow> complex list" where
  "factor N = map (\<lambda>k. exp (- 2 * \<i> * complex_of_real pi * k / of_nat N)) (arange N)"

text \<open>
  The elementwise array operations \<^verbatim>\<open>+\<close>, \<^verbatim>\<open>-\<close> and \<^verbatim>\<open>*\<close> of numpy. On operands of
  different lengths numpy broadcasts (when one has length 1) or raises; in \<open>fft\<close> the
  operands always have the same length \<open>N div 2\<close> (lemma \<open>fft_operand_lengths\<close> below),
  so neither happens there and the truncation of \<open>zip\<close> never takes effect.
\<close>

definition vadd :: "complex list \<Rightarrow> complex list \<Rightarrow> complex list" where
  "vadd xs ys = map2 (+) xs ys"

definition vsub :: "complex list \<Rightarrow> complex list \<Rightarrow> complex list" where
  "vsub xs ys = map2 (-) xs ys"

definition vmul :: "complex list \<Rightarrow> complex list \<Rightarrow> complex list" where
  "vmul xs ys = map2 (*) xs ys"

subsection \<open>The transform\<close>

function fft :: "complex list \<Rightarrow> error + complex list" where
  "fft x =
     (let N = length x in
      if N \<le> 1 then Inr x
      else if N mod 2 \<noteq> 0 then Inl ValueError
      else
        (case fft (slice_from_step2 0 x) of
           Inl e \<Rightarrow> Inl e
         | Inr X_even \<Rightarrow>
            (case fft (slice_from_step2 1 x) of
               Inl e \<Rightarrow> Inl e
             | Inr X_odd \<Rightarrow>
                 Inr (vadd X_even (vmul (take (N div 2) (factor N)) X_odd) @
                      vsub X_even (vmul (take (N div 2) (factor N)) X_odd)))))"
  by pat_completeness auto
termination
proof -
  have len: "length (slice_step2 y) = (length y + 1) div 2" for y :: "complex list"
    by (induction y rule: slice_step2.induct) simp_all
  show ?thesis
    by (relation "measure length") (auto simp: slice_from_step2_def len)
qed

declare fft.simps [simp del]

text \<open>
  The lengths \<open>N\<close> of the successive invocations of \<open>fft\<close>, in the order in which
  they are entered, up to the return or the raise. The first entry is the top-level call;
  when \<open>fft\<close> raises, the exception aborts every pending call, so the last entry is the
  invocation that raised and the odd half of a failed even half is never entered.
\<close>

function fft_trace :: "complex list \<Rightarrow> nat list" where
  "fft_trace x =
     (let N = length x in
      if N \<le> 1 then [N]
      else if N mod 2 \<noteq> 0 then [N]
      else
        N # fft_trace (slice_from_step2 0 x) @
          (case fft (slice_from_step2 0 x) of
             Inl e \<Rightarrow> []
           | Inr X_even \<Rightarrow> fft_trace (slice_from_step2 1 x)))"
  by pat_completeness auto
termination
proof -
  have len: "length (slice_step2 y) = (length y + 1) div 2" for y :: "complex list"
    by (induction y rule: slice_step2.induct) simp_all
  show ?thesis
    by (relation "measure length") (auto simp: slice_from_step2_def len)
qed

declare fft_trace.simps [simp del]

text \<open>The combine step of \<open>fft\<close>, named for the proofs.\<close>

definition butterfly :: "nat \<Rightarrow> complex list \<Rightarrow> complex list \<Rightarrow> complex list" where
  "butterfly N X_even X_odd =
     vadd X_even (vmul (take (N div 2) (factor N)) X_odd) @
     vsub X_even (vmul (take (N div 2) (factor N)) X_odd)"

subsection \<open>The discrete Fourier transform of the specification\<close>

text \<open>
  The contract of the specification, in its words:
  \<open>X[j] = \<Sum> n = 0..N-1. x[n] * exp (-2 pi i j n / N)\<close>.
\<close>

definition dft :: "complex list \<Rightarrow> nat \<Rightarrow> complex" where
  "dft x j = (\<Sum>n<length x. x ! n *
      exp (- 2 * complex_of_real pi * \<i> * of_nat j * of_nat n / of_nat (length x)))"

subsection \<open>Notions of the stated properties\<close>

text \<open>The sum of the squared magnitudes of a sequence (for the Parseval identity).\<close>

definition energy :: "complex list \<Rightarrow> real" where
  "energy xs = (\<Sum>z\<leftarrow>xs. (cmod z)\<^sup>2)"

text \<open>A scalar times a sequence, \<open>a * x\<close> elementwise.\<close>

definition smul :: "complex \<Rightarrow> complex list \<Rightarrow> complex list" where
  "smul a xs = map (\<lambda>z. a * z) xs"

text \<open>The linear combination \<open>a * x + b * y\<close> of two sequences, named for the proofs.\<close>

definition lincomb :: "complex \<Rightarrow> complex list \<Rightarrow> complex \<Rightarrow> complex list \<Rightarrow> complex list" where
  "lincomb a x b y = vadd (smul a x) (smul b y)"

section \<open>Lemmas\<close>

subsection \<open>Unfolding the transform\<close>

lemma length_slice_step2: "length (slice_step2 xs) = (length xs + 1) div 2"
  by (induction xs rule: slice_step2.induct) simp_all

lemma length_slice_from_step2:
  "length (slice_from_step2 s xs) = (length xs - s + 1) div 2"
  by (simp add: slice_from_step2_def length_slice_step2)

lemma fft_base: "length x \<le> 1 \<Longrightarrow> fft x = Inr x"
  by (simp add: fft.simps)

lemma fft_odd: "1 < length x \<Longrightarrow> odd (length x) \<Longrightarrow> fft x = Inl ValueError"
  by (simp add: fft.simps odd_iff_mod_2_eq_one)

lemma fft_even:
  "1 < length x \<Longrightarrow> even (length x) \<Longrightarrow>
   fft x =
     (case fft (slice_from_step2 0 x) of
        Inl e \<Rightarrow> Inl e
      | Inr X_even \<Rightarrow>
         (case fft (slice_from_step2 1 x) of
            Inl e \<Rightarrow> Inl e
          | Inr X_odd \<Rightarrow>
              Inr (vadd X_even (vmul (take (length x div 2) (factor (length x))) X_odd) @
                   vsub X_even (vmul (take (length x div 2) (factor (length x))) X_odd))))"
  by (subst fft.simps) (simp add: Let_def)

lemma length_halves:
  assumes "even (length x)"
  shows "length (slice_from_step2 0 x) = length x div 2"
    and "length (slice_from_step2 1 x) = length x div 2"
  using assms by (auto simp: length_slice_from_step2 elim!: evenE)

lemma length_factor: "length (factor N) = N"
  by (simp add: factor_def arange_def)

lemma fft_length: "fft x = Inr X \<Longrightarrow> length X = length x"
proof (induction x arbitrary: X rule: fft.induct)
  case (1 x)
  show ?case
  proof (cases "length x \<le> 1")
    case True
    with "1.prems" show ?thesis by (simp add: fft_base)
  next
    case False
    then have big: "1 < length x" by simp
    show ?thesis
    proof (cases "even (length x)")
      case False
      with big "1.prems" show ?thesis by (simp add: fft_odd)
    next
      case True
      from "1.prems" obtain E O' where
        E: "fft (slice_from_step2 0 x) = Inr E" and O': "fft (slice_from_step2 1 x) = Inr O'"
        and X: "X = vadd E (vmul (take (length x div 2) (factor (length x))) O') @
                   vsub E (vmul (take (length x div 2) (factor (length x))) O')"
        by (auto simp: fft_even[OF big True] split: sum.splits)
      have ne: "length x mod 2 = 0" "\<not> length x \<le> 1" using True big by auto
      have lE: "length E = length x div 2"
        using "1.IH"(1)[OF refl ne(2) _ E] ne length_halves[OF True] by simp
      have lO: "length O' = length x div 2"
        using "1.IH"(2)[OF refl ne(2) _ E O'] ne length_halves[OF True] by simp
      show ?thesis using True
        by (auto simp: X vadd_def vsub_def vmul_def lE lO length_factor elim!: evenE)
    qed
  qed
qed

subsection \<open>Slices, sums and roots of unity\<close>

lemma nth_slice_step2: "i < (length xs + 1) div 2 \<Longrightarrow> slice_step2 xs ! i = xs ! (2 * i)"
proof (induction xs arbitrary: i rule: slice_step2.induct)
  case (3 a b xs)
  then show ?case by (cases i) simp_all
qed simp_all

lemma nth_slice_even: "i < (length xs + 1) div 2 \<Longrightarrow> slice_from_step2 0 xs ! i = xs ! (2 * i)"
  by (simp add: slice_from_step2_def nth_slice_step2)

lemma nth_slice_odd: "i < length xs div 2 \<Longrightarrow> slice_from_step2 1 xs ! i = xs ! (2 * i + 1)"
  by (simp add: slice_from_step2_def nth_slice_step2)

lemma sum_split_even_odd:
  fixes f :: "nat \<Rightarrow> complex"
  shows "(\<Sum>n<2 * M. f n) = (\<Sum>m<M. f (2 * m)) + (\<Sum>m<M. f (2 * m + 1))"
  by (induction M) (simp_all add: algebra_simps)

lemma exp_minus_two_pi_i_nat: "exp (- 2 * complex_of_real pi * \<i> * of_nat n) = 1"
proof -
  have "exp (of_nat n * (- (2 * complex_of_real pi * \<i>))) = exp (- (2 * complex_of_real pi * \<i>)) ^ n"
    by (rule exp_of_nat_mult)
  also have "\<dots> = 1" by (simp add: exp_minus)
  finally show ?thesis by (simp add: mult.commute)
qed

lemma exp_minus_pi_i: "exp (- complex_of_real pi * \<i>) = - 1"
  by (simp add: exp_minus)

lemma factor_nth:
  "k < N \<Longrightarrow> factor N ! k = exp (- 2 * \<i> * complex_of_real pi * of_nat k / of_nat N)"
  by (simp add: factor_def arange_def)

lemma dft_split:
  assumes len: "length x = 2 * M" and M: "0 < M"
  shows "dft x j = dft (slice_from_step2 0 x) j +
           exp (- 2 * \<i> * complex_of_real pi * of_nat j / of_nat (2 * M)) *
           dft (slice_from_step2 1 x) j"
proof -
  let ?e = "\<lambda>n. exp (- 2 * complex_of_real pi * \<i> * of_nat j * of_nat n / of_nat (2 * M))"
  let ?h = "\<lambda>n. exp (- 2 * complex_of_real pi * \<i> * of_nat j * of_nat n / of_nat M)"
  let ?w = "exp (- 2 * \<i> * complex_of_real pi * of_nat j / of_nat (2 * M))"
  have le: "length (slice_from_step2 0 x) = M" and lo: "length (slice_from_step2 1 x) = M"
    using len by (simp_all add: length_slice_from_step2)
  have Mc: "(of_nat M :: complex) \<noteq> 0" using M by simp
  have ev: "?e (2 * m) = ?h m" for m
    using Mc by (simp add: field_simps)
  have od: "?e (2 * m + 1) = ?w * ?h m" for m
  proof -
    have "- 2 * complex_of_real pi * \<i> * of_nat j * of_nat (2 * m + 1) / of_nat (2 * M) =
          - 2 * \<i> * complex_of_real pi * of_nat j / of_nat (2 * M) +
          - 2 * complex_of_real pi * \<i> * of_nat j * of_nat m / of_nat M"
      using Mc by (simp add: field_simps)
    then show ?thesis by (simp only: exp_add)
  qed
  have t_ev: "x ! (2 * m) * ?e (2 * m) = slice_from_step2 0 x ! m * ?h m" if "m < M" for m
  proof -
    have "slice_from_step2 0 x ! m = x ! (2 * m)"
      using that by (intro nth_slice_even) (simp add: len)
    then show ?thesis by (simp only: ev)
  qed
  have t_od: "x ! (2 * m + 1) * ?e (2 * m + 1) = ?w * (slice_from_step2 1 x ! m * ?h m)"
    if "m < M" for m
  proof -
    have sl: "slice_from_step2 1 x ! m = x ! (2 * m + 1)"
      using that by (intro nth_slice_odd) (simp add: len)
    have "x ! (2 * m + 1) * ?e (2 * m + 1) = x ! (2 * m + 1) * (?w * ?h m)"
      by (simp only: od)
    also have "\<dots> = ?w * (x ! (2 * m + 1) * ?h m)"
      by (rule mult.left_commute)
    finally show ?thesis by (simp only: sl)
  qed
  have "dft x j = (\<Sum>n<2 * M. x ! n * ?e n)"
    by (simp add: dft_def len)
  also have "\<dots> = (\<Sum>m<M. x ! (2 * m) * ?e (2 * m)) + (\<Sum>m<M. x ! (2 * m + 1) * ?e (2 * m + 1))"
    by (rule sum_split_even_odd)
  also have "(\<Sum>m<M. x ! (2 * m) * ?e (2 * m)) = (\<Sum>m<M. slice_from_step2 0 x ! m * ?h m)"
    by (rule sum.cong[OF refl]) (simp only: lessThan_iff t_ev)
  also have "(\<Sum>m<M. x ! (2 * m + 1) * ?e (2 * m + 1)) =
             (\<Sum>m<M. ?w * (slice_from_step2 1 x ! m * ?h m))"
    by (rule sum.cong[OF refl]) (simp only: lessThan_iff t_od)
  also have "\<dots> = ?w * (\<Sum>m<M. slice_from_step2 1 x ! m * ?h m)"
    by (simp add: sum_distrib_left)
  finally show ?thesis
    by (simp only: dft_def le lo)
qed

lemma dft_periodic:
  assumes "length x = M" and "0 < M"
  shows "dft x (M + j) = dft x j"
proof -
  have Mc: "(of_nat M :: complex) \<noteq> 0" using assms by simp
  have "exp (- 2 * complex_of_real pi * \<i> * of_nat (M + j) * of_nat n / of_nat M) =
        exp (- 2 * complex_of_real pi * \<i> * of_nat j * of_nat n / of_nat M)" for n
  proof -
    have "- 2 * complex_of_real pi * \<i> * of_nat (M + j) * of_nat n / of_nat M =
          - 2 * complex_of_real pi * \<i> * of_nat n +
          - 2 * complex_of_real pi * \<i> * of_nat j * of_nat n / of_nat M"
      using Mc by (simp add: field_simps)
    then show ?thesis
      by (simp only: exp_add exp_minus_two_pi_i_nat mult_1)
  qed
  then show ?thesis by (simp add: dft_def assms(1))
qed

lemma twiddle_half:
  assumes "0 < M"
  shows "exp (- 2 * \<i> * complex_of_real pi * of_nat (M + j) / of_nat (2 * M)) =
         - exp (- 2 * \<i> * complex_of_real pi * of_nat j / of_nat (2 * M))"
proof -
  have Mc: "(of_nat M :: complex) \<noteq> 0" using assms by simp
  have "- 2 * \<i> * complex_of_real pi * of_nat (M + j) / of_nat (2 * M) =
        - complex_of_real pi * \<i> + - 2 * \<i> * complex_of_real pi * of_nat j / of_nat (2 * M)"
    using Mc by (simp add: field_simps)
  then show ?thesis
    by (simp only: exp_add exp_minus_pi_i) simp
qed

subsection \<open>The combine step\<close>

lemma fft_even_Inr:
  assumes "1 < length x" and "even (length x)"
    and "fft (slice_from_step2 0 x) = Inr E" and "fft (slice_from_step2 1 x) = Inr D"
  shows "fft x = Inr (butterfly (length x) E D)"
  using assms(3,4) by (simp add: fft_even[OF assms(1,2)] butterfly_def)

lemma fft_even_Inl:
  assumes "1 < length x" and "even (length x)"
    and "fft (slice_from_step2 0 x) = Inl e \<or>
         (\<exists>E. fft (slice_from_step2 0 x) = Inr E) \<and> fft (slice_from_step2 1 x) = Inl e"
  shows "fft x = Inl e"
  using assms(3) by (auto simp: fft_even[OF assms(1,2)])

lemma length_butterfly:
  assumes "length E = M" and "length D = M"
  shows "length (butterfly (2 * M) E D) = 2 * M"
  using assms by (simp add: butterfly_def vadd_def vsub_def vmul_def length_factor)

lemma butterfly_nth_low:
  assumes "length E = M" and "length D = M" and "j < M"
  shows "butterfly (2 * M) E D ! j =
         E ! j + exp (- 2 * \<i> * complex_of_real pi * of_nat j / of_nat (2 * M)) * D ! j"
proof -
  have "j < 2 * M" using assms(3) by simp
  then have f: "factor (2 * M) ! j = exp (- 2 * \<i> * complex_of_real pi * of_nat j / of_nat (2 * M))"
    by (rule factor_nth)
  have "butterfly (2 * M) E D ! j = vadd E (vmul (take M (factor (2 * M))) D) ! j"
    using assms by (simp add: butterfly_def nth_append vadd_def vmul_def length_factor)
  also have "\<dots> = E ! j + factor (2 * M) ! j * D ! j"
    using assms by (simp add: vadd_def vmul_def length_factor)
  finally show ?thesis by (simp only: f)
qed

lemma butterfly_nth_high:
  assumes "length E = M" and "length D = M" and "j < M"
  shows "butterfly (2 * M) E D ! (M + j) =
         E ! j - exp (- 2 * \<i> * complex_of_real pi * of_nat j / of_nat (2 * M)) * D ! j"
proof -
  have "j < 2 * M" using assms(3) by simp
  then have f: "factor (2 * M) ! j = exp (- 2 * \<i> * complex_of_real pi * of_nat j / of_nat (2 * M))"
    by (rule factor_nth)
  have "butterfly (2 * M) E D ! (M + j) = vsub E (vmul (take M (factor (2 * M))) D) ! j"
    using assms by (simp add: butterfly_def nth_append vadd_def vmul_def length_factor)
  also have "\<dots> = E ! j - factor (2 * M) ! j * D ! j"
    using assms by (simp add: vsub_def vmul_def length_factor)
  finally show ?thesis by (simp only: f)
qed

lemma dft_singleton: "length x = 1 \<Longrightarrow> map (dft x) [0..<length x] = x"
  by (cases x) (simp_all add: dft_def)

lemma butterfly_dft:
  assumes len: "length x = 2 * M" and M: "0 < M"
  shows "butterfly (2 * M) (map (dft (slice_from_step2 0 x)) [0..<M])
           (map (dft (slice_from_step2 1 x)) [0..<M]) = map (dft x) [0..<2 * M]"
    (is "butterfly _ ?E ?D = _")
proof (rule nth_equalityI)
  have lE: "length ?E = M" and lD: "length ?D = M" by simp_all
  show "length (butterfly (2 * M) ?E ?D) = length (map (dft x) [0..<2 * M])"
    using length_butterfly[OF lE lD] by simp
  fix i assume "i < length (butterfly (2 * M) ?E ?D)"
  then have i: "i < 2 * M" using length_butterfly[OF lE lD] by simp
  have le: "length (slice_from_step2 0 x) = M" and lo: "length (slice_from_step2 1 x) = M"
    using len by (simp_all add: length_slice_from_step2)
  show "butterfly (2 * M) ?E ?D ! i = map (dft x) [0..<2 * M] ! i"
  proof (cases "i < M")
    case True
    have "butterfly (2 * M) ?E ?D ! i =
          ?E ! i + exp (- 2 * \<i> * complex_of_real pi * of_nat i / of_nat (2 * M)) * ?D ! i"
      by (rule butterfly_nth_low[OF lE lD True])
    also have "\<dots> = dft x i"
      using True by (simp add: dft_split[OF len M])
    finally show ?thesis using i by simp
  next
    case False
    then obtain j where j: "i = M + j" "j < M"
      using i by (metis add_diff_inverse_nat nat_add_left_cancel_less mult_2)
    have "butterfly (2 * M) ?E ?D ! (M + j) =
          ?E ! j - exp (- 2 * \<i> * complex_of_real pi * of_nat j / of_nat (2 * M)) * ?D ! j"
      by (rule butterfly_nth_high[OF lE lD j(2)])
    also have "\<dots> = dft (slice_from_step2 0 x) j +
        (- exp (- 2 * \<i> * complex_of_real pi * of_nat j / of_nat (2 * M))) *
        dft (slice_from_step2 1 x) j"
      using j(2) by simp
    also have "\<dots> = dft (slice_from_step2 0 x) (M + j) +
        exp (- 2 * \<i> * complex_of_real pi * of_nat (M + j) / of_nat (2 * M)) *
        dft (slice_from_step2 1 x) (M + j)"
      by (simp only: dft_periodic[OF le M] dft_periodic[OF lo M] twiddle_half[OF M])
    also have "\<dots> = dft x (M + j)"
      by (simp only: dft_split[OF len M])
    finally show ?thesis using i j by simp
  qed
qed

subsection \<open>The trace of invocations\<close>

lemma fft_trace_base: "length x \<le> 1 \<Longrightarrow> fft_trace x = [length x]"
  by (simp add: fft_trace.simps)

lemma fft_trace_odd: "1 < length x \<Longrightarrow> odd (length x) \<Longrightarrow> fft_trace x = [length x]"
  by (simp add: fft_trace.simps odd_iff_mod_2_eq_one)

lemma fft_trace_even:
  "1 < length x \<Longrightarrow> even (length x) \<Longrightarrow>
   fft_trace x =
     length x # fft_trace (slice_from_step2 0 x) @
       (case fft (slice_from_step2 0 x) of
          Inl e \<Rightarrow> []
        | Inr X_even \<Rightarrow> fft_trace (slice_from_step2 1 x))"
  by (subst fft_trace.simps) (simp add: Let_def)

lemma fft_trace_hd: "fft_trace x \<noteq> [] \<and> hd (fft_trace x) = length x"
  by (subst (1 2) fft_trace.simps) (simp add: Let_def)

lemma fft_rel_length:
  assumes "fft_rel y x"
  shows "length y = length x div 2 \<and> length y < length x \<and> 1 < length x"
  using assms by (cases rule: fft_rel.cases) (auto simp: length_slice_from_step2)

lemma fft_pow2_Inr: "length x = 2 ^ k \<Longrightarrow> \<exists>X. fft x = Inr X \<and> length X = length x"
proof (induction k arbitrary: x)
  case 0
  then have "length x \<le> 1" by simp
  then show ?case by (simp add: fft_base)
next
  case (Suc k)
  have len: "length x = 2 * 2 ^ k" using Suc.prems by simp
  have big: "1 < length x"
  proof -
    have "(0::nat) < 2 ^ k" by simp
    with len show ?thesis by linarith
  qed
  have ev: "even (length x)" using len by simp
  have "length (slice_from_step2 0 x) = 2 ^ k" "length (slice_from_step2 1 x) = 2 ^ k"
    using len by (simp_all add: length_slice_from_step2)
  then obtain E D where E: "fft (slice_from_step2 0 x) = Inr E"
    and D: "fft (slice_from_step2 1 x) = Inr D"
    using Suc.IH by blast
  have "fft x = Inr (butterfly (length x) E D)"
    by (rule fft_even_Inr[OF big ev E D])
  then show ?case using fft_length by blast
qed

lemma fft_operand_lengths:
  assumes "1 < length x" and "even (length x)"
    and "fft (slice_from_step2 0 x) = Inr X_even" and "fft (slice_from_step2 1 x) = Inr X_odd"
  shows "length X_even = length x div 2 \<and> length X_odd = length x div 2 \<and>
         length (take (length x div 2) (factor (length x))) = length x div 2"
  using fft_length[OF assms(3)] fft_length[OF assms(4)] length_halves[OF assms(2)]
  by (simp add: length_factor)

lemma half_not_pow2:
  assumes "1 < (n::nat)" and "even n" and "\<forall>k. n \<noteq> 2 ^ k"
  shows "1 < n div 2 \<and> (\<forall>k. n div 2 \<noteq> 2 ^ k)"
proof -
  obtain m where n: "n = 2 * m" using assms(2) by (elim evenE)
  have np: "m \<noteq> 2 ^ k" for k
  proof
    assume "m = 2 ^ k"
    then have "n = 2 ^ Suc k" using n by simp
    with assms(3) show False by blast
  qed
  have "m \<noteq> 0" using n assms(1) by auto
  moreover have "m \<noteq> 1" using np[of 0] by simp
  ultimately have "1 < m" by linarith
  with np n show ?thesis by simp
qed

lemma fft_not_pow2_Inl:
  "1 < length x \<Longrightarrow> \<forall>k. length x \<noteq> 2 ^ k \<Longrightarrow> fft x = Inl ValueError"
proof (induction x rule: measure_induct_rule[of length])
  case (less x)
  show ?case
  proof (cases "even (length x)")
    case False
    with less.prems(1) show ?thesis by (simp add: fft_odd)
  next
    case True
    have l0: "length (slice_from_step2 0 x) = length x div 2"
      by (rule length_halves(1)[OF True])
    have h: "1 < length x div 2 \<and> (\<forall>k. length x div 2 \<noteq> 2 ^ k)"
      by (rule half_not_pow2[OF less.prems(1) True less.prems(2)])
    have "length (slice_from_step2 0 x) < length x" using l0 less.prems(1) by simp
    then have "fft (slice_from_step2 0 x) = Inl ValueError"
      using less.IH[of "slice_from_step2 0 x"] h l0 by simp
    then show ?thesis by (simp add: fft_even[OF less.prems(1) True])
  qed
qed

lemma fft_Inl_last:
  "fft x = Inl e \<Longrightarrow> odd (last (fft_trace x)) \<and> 1 < last (fft_trace x)"
proof (induction x arbitrary: e rule: measure_induct_rule[of length])
  case (less x)
  show ?case
  proof (cases "length x \<le> 1")
    case True
    with less.prems show ?thesis by (simp add: fft_base)
  next
    case False
    then have big: "1 < length x" by simp
    show ?thesis
    proof (cases "even (length x)")
      case False
      with big show ?thesis by (simp add: fft_trace_odd)
    next
      case True
      have l0: "length (slice_from_step2 0 x) < length x"
        and l1: "length (slice_from_step2 1 x) < length x"
        using length_halves[OF True] big by simp_all
      show ?thesis
      proof (cases "fft (slice_from_step2 0 x)")
        case (Inl e0)
        have "fft_trace x = length x # fft_trace (slice_from_step2 0 x)"
          using Inl by (simp add: fft_trace_even[OF big True])
        then have "last (fft_trace x) = last (fft_trace (slice_from_step2 0 x))"
          using fft_trace_hd[of "slice_from_step2 0 x"] by simp
        then show ?thesis using less.IH[OF l0 Inl] by simp
      next
        case (Inr E)
        with less.prems have I1: "fft (slice_from_step2 1 x) = Inl e"
          by (auto simp: fft_even[OF big True] split: sum.splits)
        have "fft_trace x =
              length x # fft_trace (slice_from_step2 0 x) @ fft_trace (slice_from_step2 1 x)"
          using Inr by (simp add: fft_trace_even[OF big True])
        then have "last (fft_trace x) = last (fft_trace (slice_from_step2 1 x))"
          using fft_trace_hd[of "slice_from_step2 1 x"] by simp
        then show ?thesis using less.IH[OF l1 I1] by simp
      qed
    qed
  qed
qed

lemma fft_trace_pow2:
  "length x = 2 ^ k \<Longrightarrow> n \<in> set (fft_trace x) \<Longrightarrow> \<exists>j. n = 2 ^ j"
proof (induction k arbitrary: x)
  case 0
  then have "fft_trace x = [2 ^ 0]" by (simp add: fft_trace_base)
  with "0.prems"(2) show ?case by (metis empty_iff insert_iff list.set(1) list.simps(15))
next
  case (Suc k)
  have len: "length x = 2 * 2 ^ k" using Suc.prems(1) by simp
  have big: "1 < length x"
  proof -
    have "(0::nat) < 2 ^ k" by simp
    with len show ?thesis by linarith
  qed
  have ev: "even (length x)" using len by simp
  have l0: "length (slice_from_step2 0 x) = 2 ^ k" and l1: "length (slice_from_step2 1 x) = 2 ^ k"
    using len by (simp_all add: length_slice_from_step2)
  have "set (fft_trace x) \<subseteq>
        {length x} \<union> set (fft_trace (slice_from_step2 0 x)) \<union>
        set (fft_trace (slice_from_step2 1 x))"
    by (auto simp: fft_trace_even[OF big ev] split: sum.splits)
  with Suc.prems(2) consider "n = 2 ^ Suc k" | "n \<in> set (fft_trace (slice_from_step2 0 x))"
    | "n \<in> set (fft_trace (slice_from_step2 1 x))"
    using Suc.prems(1) by auto
  then show ?case
  proof cases
    case 1
    then show ?thesis by blast
  next
    case 2
    then show ?thesis by (rule Suc.IH[OF l0])
  next
    case 3
    then show ?thesis by (rule Suc.IH[OF l1])
  qed
qed

lemma six_not_pow2: "(6::nat) \<noteq> 2 ^ k"
proof
  assume eq: "(6::nat) = 2 ^ k"
  show False
  proof (cases "k \<le> 2")
    case True
    then have "k = 0 \<or> k = 1 \<or> k = 2" by linarith
    with eq show False by auto
  next
    case False
    then have "(2::nat) ^ 3 \<le> 2 ^ k" by (intro power_increasing) simp_all
    with eq show False by simp
  qed
qed

subsection \<open>The call relation of the transform\<close>

text \<open>
  \<open>fft_rel y x\<close> is the call relation of the definition of \<open>fft\<close>: the invocation on \<open>x\<close>
  calls \<open>fft\<close> on \<open>y\<close>. Its transitive closure relates \<open>x\<close> to the invocations at every
  deeper recursion level.
\<close>

lemma fft_rel_even_half:
  "1 < length x \<Longrightarrow> even (length x) \<Longrightarrow> fft_rel (slice_from_step2 0 x) x"
  by (rule fft_rel.intros(1)[of "length x"]) simp_all

lemma fft_rel_odd_none: "odd (length x) \<Longrightarrow> \<not> fft_rel z x"
proof
  assume o: "odd (length x)" and "fft_rel z x"
  from this(2) have "length x mod 2 = 0"
    by (cases rule: fft_rel.cases) simp_all
  with o show False by presburger
qed

lemma not_pow2_reaches_odd:
  "1 < length x \<Longrightarrow> even (length x) \<Longrightarrow> \<forall>k. length x \<noteq> 2 ^ k \<Longrightarrow>
   \<exists>y. tranclp fft_rel y x \<and> odd (length y) \<and> 1 < length y"
proof (induction x rule: measure_induct_rule[of length])
  case (less x)
  let ?y = "slice_from_step2 0 x"
  have r: "fft_rel ?y x"
    by (rule fft_rel_even_half[OF less.prems(1,2)])
  have l0: "length ?y = length x div 2"
    by (rule length_halves(1)[OF less.prems(2)])
  have h: "1 < length x div 2 \<and> (\<forall>k. length x div 2 \<noteq> 2 ^ k)"
    by (rule half_not_pow2[OF less.prems])
  show ?case
  proof (cases "even (length ?y)")
    case False
    with r h l0 show ?thesis by (metis tranclp.r_into_trancl)
  next
    case True
    have "length ?y < length x" using l0 less.prems(1) by simp
    then obtain y where y: "tranclp fft_rel y ?y" "odd (length y)" "1 < length y"
      using less.IH[of ?y] True h l0 by auto
    from y(1) r have "tranclp fft_rel y x" by (rule tranclp.trancl_into_trancl)
    with y(2,3) show ?thesis by blast
  qed
qed

subsection \<open>Small inputs\<close>

lemma fft_single: "fft [c] = Inr [c]"
  by (simp add: fft_base)

lemma factor_head: "take (Suc 0) (factor (Suc n)) = [1]"
  by (simp add: factor_def arange_def upt_rec)

lemma fft_pair: "fft [a, b] = Inr [a + b, a - b]"
proof -
  have s: "slice_from_step2 0 [a, b] = [a]" "slice_from_step2 1 [a, b] = [b]"
    by (simp_all add: slice_from_step2_def)
  have E: "fft (slice_from_step2 0 [a, b]) = Inr [a]"
    and D: "fft (slice_from_step2 1 [a, b]) = Inr [b]"
    unfolding s by (rule fft_single)+
  have "fft [a, b] = Inr (butterfly (length [a, b]) [a] [b])"
    by (rule fft_even_Inr[OF _ _ E D]) simp_all
  also have "butterfly (length [a, b]) [a] [b] = [a + b, a - b]"
    by (simp add: butterfly_def vadd_def vsub_def vmul_def factor_head)
  finally show ?thesis .
qed

lemma fft_quad_zero_odd:
  "fft [a, 0, b, 0] = Inr [a + b, a - b, a + b, a - b]"
proof -
  have s: "slice_from_step2 0 [a, 0, b, 0] = [a, b]" "slice_from_step2 1 [a, 0, b, 0] = [0, 0]"
    by (simp_all add: slice_from_step2_def)
  have E: "fft (slice_from_step2 0 [a, 0, b, 0]) = Inr [a + b, a - b]"
    unfolding s by (rule fft_pair)
  have D: "fft (slice_from_step2 1 [a, 0, b, 0]) = Inr [0, 0]"
    unfolding s using fft_pair[of 0 0] by simp
  have "fft [a, 0, b, 0] = Inr (butterfly (length [a, 0, b, 0]) [a + b, a - b] [0, 0])"
    by (rule fft_even_Inr[OF _ _ E D]) simp_all
  also have "butterfly (length [a, 0, b, 0]) [a + b, a - b] [0, 0] = [a + b, a - b, a + b, a - b]"
    by (simp add: butterfly_def vadd_def vsub_def vmul_def factor_def arange_def upt_rec)
  finally show ?thesis .
qed

lemma fft_quad_const: "fft [c, c, c, c] = Inr [4 * c, 0, 0, 0]"
proof -
  have s: "slice_from_step2 0 [c, c, c, c] = [c, c]" "slice_from_step2 1 [c, c, c, c] = [c, c]"
    by (simp_all add: slice_from_step2_def)
  have E: "fft (slice_from_step2 0 [c, c, c, c]) = Inr [2 * c, 0]"
    and D: "fft (slice_from_step2 1 [c, c, c, c]) = Inr [2 * c, 0]"
    unfolding s using fft_pair[of c c] by simp_all
  have "fft [c, c, c, c] = Inr (butterfly (length [c, c, c, c]) [2 * c, 0] [2 * c, 0])"
    by (rule fft_even_Inr[OF _ _ E D]) simp_all
  also have "butterfly (length [c, c, c, c]) [2 * c, 0] [2 * c, 0] = [4 * c, 0, 0, 0]"
    by (simp add: butterfly_def vadd_def vsub_def vmul_def factor_def arange_def upt_rec)
  finally show ?thesis .
qed

subsection \<open>Energy\<close>

lemma energy_Nil: "energy [] = 0"
  by (simp add: energy_def)

lemma energy_Cons: "energy (z # zs) = (cmod z)\<^sup>2 + energy zs"
  by (simp add: energy_def)

lemma energy_append: "energy (xs @ ys) = energy xs + energy ys"
  by (simp add: energy_def)

lemma slice_step2_Cons: "slice_step2 (b # xs) = b # slice_step2 (drop 1 xs)"
  by (cases xs) simp_all

lemma energy_slices: "energy (slice_from_step2 0 xs) + energy (slice_from_step2 1 xs) = energy xs"
proof -
  have "energy (slice_step2 xs) + energy (slice_step2 (drop 1 xs)) = energy xs"
  proof (induction xs)
    case Nil
    then show ?case by (simp add: energy_Nil)
  next
    case (Cons a xs)
    have "energy (slice_step2 (a # xs)) + energy (slice_step2 (drop 1 (a # xs))) =
          (cmod a)\<^sup>2 + (energy (slice_step2 (drop 1 xs)) + energy (slice_step2 xs))"
      by (simp add: slice_step2_Cons[of a xs] energy_Cons)
    with Cons.IH show ?case by (simp add: energy_Cons)
  qed
  then show ?thesis by (simp add: slice_from_step2_def)
qed

lemma parallelogram:
  assumes "cmod w = 1"
  shows "(cmod (a + w * b))\<^sup>2 + (cmod (a - w * b))\<^sup>2 = 2 * ((cmod a)\<^sup>2 + (cmod b)\<^sup>2)"
proof -
  have "(cmod (a + c))\<^sup>2 + (cmod (a - c))\<^sup>2 = 2 * ((cmod a)\<^sup>2 + (cmod c)\<^sup>2)" for c
    unfolding cmod_power2 by (simp add: power2_eq_square algebra_simps)
  then have "(cmod (a + w * b))\<^sup>2 + (cmod (a - w * b))\<^sup>2 =
             2 * ((cmod a)\<^sup>2 + (cmod (w * b))\<^sup>2)" .
  also have "cmod (w * b) = cmod b"
    using assms by (simp add: norm_mult)
  finally show ?thesis .
qed

lemma energy_combine:
  assumes "length E = length ws" and "length ws = length D" and "\<forall>w \<in> set ws. cmod w = 1"
  shows "energy (vadd E (vmul ws D)) + energy (vsub E (vmul ws D)) = 2 * (energy E + energy D)"
  using assms
proof (induction E ws D rule: list_induct3)
  case Nil
  then show ?case by (simp add: vadd_def vsub_def vmul_def energy_Nil)
next
  case (Cons a E w ws b D)
  have w: "cmod w = 1" using Cons.prems by simp
  have IH: "energy (vadd E (vmul ws D)) + energy (vsub E (vmul ws D)) = 2 * (energy E + energy D)"
    using Cons.IH Cons.prems by simp
  have "energy (vadd (a # E) (vmul (w # ws) (b # D))) + energy (vsub (a # E) (vmul (w # ws) (b # D))) =
        ((cmod (a + w * b))\<^sup>2 + (cmod (a - w * b))\<^sup>2) +
        (energy (vadd E (vmul ws D)) + energy (vsub E (vmul ws D)))"
    by (simp add: vadd_def vsub_def vmul_def energy_Cons)
  also have "\<dots> = 2 * ((cmod a)\<^sup>2 + (cmod b)\<^sup>2) + 2 * (energy E + energy D)"
    by (simp only: parallelogram[OF w] IH)
  finally show ?case by (simp add: energy_Cons)
qed

lemma cmod_factor: "w \<in> set (factor N) \<Longrightarrow> cmod w = 1"
  by (auto simp: factor_def arange_def)

lemma energy_butterfly:
  assumes "length E = M" and "length D = M"
  shows "energy (butterfly (2 * M) E D) = 2 * (energy E + energy D)"
proof -
  let ?ws = "take M (factor (2 * M))"
  have l: "length E = length ?ws" "length ?ws = length D"
    using assms by (simp_all add: length_factor)
  have u: "\<forall>w \<in> set ?ws. cmod w = 1"
    using cmod_factor by (meson in_set_takeD)
  have "energy (butterfly (2 * M) E D) =
        energy (vadd E (vmul ?ws D)) + energy (vsub E (vmul ?ws D))"
    by (simp add: butterfly_def energy_append)
  also have "\<dots> = 2 * (energy E + energy D)"
    by (rule energy_combine[OF l u])
  finally show ?thesis .
qed

subsection \<open>Linear combinations\<close>

lemma length_lincomb: "length x = length y \<Longrightarrow> length (lincomb a x b y) = length x"
  by (simp add: lincomb_def vadd_def smul_def)

lemma nth_lincomb:
  "length x = length y \<Longrightarrow> i < length x \<Longrightarrow> lincomb a x b y ! i = a * x ! i + b * y ! i"
  by (simp add: lincomb_def vadd_def smul_def)

lemma slice_lincomb:
  assumes "length x = length y"
  shows "slice_from_step2 s (lincomb a x b y) =
         lincomb a (slice_from_step2 s x) b (slice_from_step2 s y)"
proof -
  have "slice_step2 (lincomb a u b v) = lincomb a (slice_step2 u) b (slice_step2 v)"
    if "length u = length v" for u v
    using that
  proof (induction u arbitrary: v rule: slice_step2.induct)
    case 1
    then show ?case by (simp add: lincomb_def vadd_def smul_def)
  next
    case (2 p)
    then obtain q where "v = [q]" by (cases v) simp_all
    then show ?case by (simp add: lincomb_def vadd_def smul_def)
  next
    case (3 p p' u)
    then obtain q q' v' where v: "v = q # q' # v'" and l: "length u = length v'"
      by (cases v; cases "tl v") auto
    have "lincomb a (p # p' # u) b (q # q' # v') =
          (a * p + b * q) # (a * p' + b * q') # lincomb a u b v'"
      by (simp add: lincomb_def vadd_def smul_def)
    then show ?case using "3.IH"[OF l] v
      by (simp add: lincomb_def vadd_def smul_def)
  qed
  moreover have "drop s (lincomb a x b y) = lincomb a (drop s x) b (drop s y)"
    by (simp add: lincomb_def vadd_def smul_def drop_map drop_zip)
  moreover have "length (drop s x) = length (drop s y)" using assms by simp
  ultimately show ?thesis by (simp add: slice_from_step2_def)
qed

lemma butterfly_lincomb:
  assumes "length E = M" and "length D = M" and "length E' = M" and "length D' = M"
  shows "butterfly (2 * M) (lincomb a E b E') (lincomb a D b D') =
         lincomb a (butterfly (2 * M) E D) b (butterfly (2 * M) E' D')"
proof (rule nth_equalityI)
  have lE: "length (lincomb a E b E') = M" and lD: "length (lincomb a D b D') = M"
    using assms by (simp_all add: length_lincomb)
  have lB: "length (butterfly (2 * M) E D) = 2 * M"
    and lB': "length (butterfly (2 * M) E' D') = 2 * M"
    using assms by (simp_all add: length_butterfly)
  have lL: "length (butterfly (2 * M) E D) = length (butterfly (2 * M) E' D')"
    using lB lB' by simp
  show "length (butterfly (2 * M) (lincomb a E b E') (lincomb a D b D')) =
        length (lincomb a (butterfly (2 * M) E D) b (butterfly (2 * M) E' D'))"
    using length_butterfly[OF lE lD] length_lincomb[OF lL] lB by simp
  fix i assume "i < length (butterfly (2 * M) (lincomb a E b E') (lincomb a D b D'))"
  then have i: "i < 2 * M" using length_butterfly[OF lE lD] by simp
  have R: "lincomb a (butterfly (2 * M) E D) b (butterfly (2 * M) E' D') ! i =
           a * butterfly (2 * M) E D ! i + b * butterfly (2 * M) E' D' ! i"
    using nth_lincomb[OF lL] i lB by simp
  show "butterfly (2 * M) (lincomb a E b E') (lincomb a D b D') ! i =
        lincomb a (butterfly (2 * M) E D) b (butterfly (2 * M) E' D') ! i"
  proof (cases "i < M")
    case True
    have n: "lincomb a E b E' ! i = a * E ! i + b * E' ! i"
      "lincomb a D b D' ! i = a * D ! i + b * D' ! i"
      using True assms by (simp_all add: nth_lincomb)
    show ?thesis
      unfolding R butterfly_nth_low[OF lE lD True] butterfly_nth_low[OF assms(1,2) True]
        butterfly_nth_low[OF assms(3,4) True] n
      by (simp add: algebra_simps)
  next
    case False
    then obtain j where j: "i = M + j" "j < M"
      using i by (metis add_diff_inverse_nat nat_add_left_cancel_less mult_2)
    have n: "lincomb a E b E' ! j = a * E ! j + b * E' ! j"
      "lincomb a D b D' ! j = a * D ! j + b * D' ! j"
      using j(2) assms by (simp_all add: nth_lincomb)
    note R' = R[unfolded j(1)]
    show ?thesis
      unfolding j(1) R' butterfly_nth_high[OF lE lD j(2)] butterfly_nth_high[OF assms(1,2) j(2)]
        butterfly_nth_high[OF assms(3,4) j(2)] n
      by (simp add: algebra_simps)
  qed
qed

section \<open>The claims\<close>

text \<open>
  C1. For every sequence \<open>x\<close> of \<open>N\<close> complex samples with \<open>N\<close> a power of two,
  \<open>fft x\<close> returns the sequence of the \<open>N\<close> values
  \<open>X[j] = \<Sum> n < N. x[n] * exp (-2 pi i j n / N)\<close>, \<open>j = 0..N-1\<close>: the forward discrete
  Fourier transform, with no \<open>1/N\<close> scaling.
\<close>

theorem fft_computes_dft:
  "length x = 2 ^ k \<Longrightarrow> fft x = Inr (map (dft x) [0..<length x])"
proof (induction k arbitrary: x)
  case 0
  then have "length x = 1" by simp
  then show ?case using fft_base[of x] dft_singleton[of x] by simp
next
  case (Suc k)
  let ?M = "2 ^ k :: nat"
  have len: "length x = 2 * ?M" using Suc.prems by simp
  have M: "0 < ?M" by simp
  have big: "1 < length x" using len M by linarith
  have ev: "even (length x)" using len by simp
  have le: "length (slice_from_step2 0 x) = ?M" and lo: "length (slice_from_step2 1 x) = ?M"
    using len by (simp_all add: length_slice_from_step2)
  have E: "fft (slice_from_step2 0 x) = Inr (map (dft (slice_from_step2 0 x)) [0..<?M])"
    using Suc.IH[OF le] by (simp only: le)
  have D: "fft (slice_from_step2 1 x) = Inr (map (dft (slice_from_step2 1 x)) [0..<?M])"
    using Suc.IH[OF lo] by (simp only: lo)
  have "fft x = Inr (butterfly (2 * ?M) (map (dft (slice_from_step2 0 x)) [0..<?M])
           (map (dft (slice_from_step2 1 x)) [0..<?M]))"
    using fft_even_Inr[OF big ev E D] by (simp only: len)
  then show ?case by (simp only: butterfly_dft[OF len M] len)
qed

theorem fft_computes_dft_witness:
  "length [1, 2 :: complex] = 2 ^ 1 \<and>
   fft [1, 2] = Inr [dft [1, 2] 0, dft [1, 2] 1]"
  using fft_computes_dft [of "[1, 2]" 1] by (simp add: upt_rec)



text \<open>
  C3. On a sequence of length \<open>N = 2^k\<close> (every \<open>k\<close>, in particular \<open>k = 0..10\<close>), \<open>fft\<close>
  returns a sequence of length \<open>N\<close>; and whenever any invocation of \<open>fft\<close> returns, at
  any recursion level, its output is as long as its input.
\<close>

theorem fft_preserves_length:
  "(length x = 2 ^ k \<longrightarrow> (\<exists>Y. fft x = Inr Y \<and> length Y = 2 ^ k)) \<and>
   (fft x = Inr X \<longrightarrow> length X = length x)"
  using fft_pow2_Inr[of x k] fft_length[of x X] by auto

theorem fft_preserves_length_witness:
  "length [1, 2 :: complex] = 2 ^ 1 \<and>
   (\<exists>Y. fft [1, 2] = Inr Y \<and> length Y = 2 ^ 1) \<and>
   fft [1, 2] = Inr [1 + 2, 1 - 2] \<and> length [1 + 2, 1 - 2 :: complex] = length [1, 2 :: complex]"
  using fft_preserves_length [of "[1, 2]" 1 "[1 + 2, 1 - 2]"] fft_pair [of 1 2] by simp

text \<open>
  C4. For \<open>N = 0\<close> and \<open>N = 1\<close> the transform is the identity: \<open>fft\<close> of the empty sequence
  is the empty sequence, \<open>fft [c] = [c]\<close> for every complex \<open>c\<close>, and every input of length at
  most 1 is returned unchanged.
\<close>

theorem fft_terminal_identity:
  "fft [] = Inr [] \<and> fft [c] = Inr [c] \<and> (length x \<le> 1 \<longrightarrow> fft x = Inr x)"
  by (simp add: fft_base)

theorem fft_terminal_identity_witness:
  "fft [] = Inr [] \<and> fft [\<i>] = Inr [\<i>] \<and> length [2 :: complex] \<le> 1 \<and> fft [2] = Inr [2]"
  using fft_terminal_identity [of \<i> "[2]"] by simp

text \<open>
  C5. Small sizes: \<open>fft [a, b] = [a + b, a - b]\<close> for all complex \<open>a\<close>, \<open>b\<close>;
  \<open>fft [1, 0, 0, 0] = [1, 1, 1, 1]\<close>; and \<open>fft [1, 1, 1, 1] = [4, 0, 0, 0]\<close>.
\<close>

theorem fft_small_values:
  "fft [a, b] = Inr [a + b, a - b] \<and>
   fft [1, 0, 0, 0] = Inr [1, 1, 1, 1] \<and>
   fft [1, 1, 1, 1] = Inr [4, 0, 0, 0]"
  using fft_pair[of a b] fft_quad_zero_odd[of 1 0] fft_quad_const[of 1] by simp

text \<open>
  C6. Linearity: for all scalars \<open>a\<close>, \<open>b\<close> and all sequences \<open>x\<close>, \<open>y\<close> of the same
  power-of-two length, \<open>fft (a * x + b * y) = a * fft x + b * fft y\<close>, exactly over exact
  complex arithmetic.
\<close>

theorem fft_linear:
  "length x = 2 ^ k \<Longrightarrow> length y = 2 ^ k \<Longrightarrow>
   \<exists>X Y. fft x = Inr X \<and> fft y = Inr Y \<and>
     fft (vadd (smul a x) (smul b y)) = Inr (vadd (smul a X) (smul b Y))"
proof (induction k arbitrary: x y)
  case 0
  then have "length x \<le> 1" "length y \<le> 1" "length (vadd (smul a x) (smul b y)) \<le> 1"
    by (simp_all add: vadd_def smul_def)
  then show ?case by (simp add: fft_base)
next
  case (Suc k)
  let ?M = "2 ^ k :: nat"
  let ?z = "lincomb a x b y"
  have lx: "length x = 2 * ?M" and ly: "length y = 2 * ?M" using Suc.prems by simp_all
  have lxy: "length x = length y" using lx ly by simp
  have lz: "length ?z = 2 * ?M" using length_lincomb[OF lxy] lx by simp
  have big: "1 < 2 * ?M"
  proof -
    have "0 < ?M" by simp
    then show ?thesis by linarith
  qed
  have h: "length (slice_from_step2 0 x) = ?M" "length (slice_from_step2 1 x) = ?M"
    "length (slice_from_step2 0 y) = ?M" "length (slice_from_step2 1 y) = ?M"
    using lx ly by (simp_all add: length_slice_from_step2)
  obtain E E' where E: "fft (slice_from_step2 0 x) = Inr E"
    and E': "fft (slice_from_step2 0 y) = Inr E'"
    and Ez: "fft (lincomb a (slice_from_step2 0 x) b (slice_from_step2 0 y)) = Inr (lincomb a E b E')"
    using Suc.IH[OF h(1) h(3)] unfolding lincomb_def by blast
  obtain D D' where D: "fft (slice_from_step2 1 x) = Inr D"
    and D': "fft (slice_from_step2 1 y) = Inr D'"
    and Dz: "fft (lincomb a (slice_from_step2 1 x) b (slice_from_step2 1 y)) = Inr (lincomb a D b D')"
    using Suc.IH[OF h(2) h(4)] unfolding lincomb_def by blast
  have l: "length E = ?M" "length D = ?M" "length E' = ?M" "length D' = ?M"
    using fft_length[OF E] fft_length[OF D] fft_length[OF E'] fft_length[OF D'] h by simp_all
  have X: "fft x = Inr (butterfly (2 * ?M) E D)"
    using fft_even_Inr[OF _ _ E D] big lx by simp
  have Y: "fft y = Inr (butterfly (2 * ?M) E' D')"
    using fft_even_Inr[OF _ _ E' D'] big ly by simp
  have Ez': "fft (slice_from_step2 0 ?z) = Inr (lincomb a E b E')"
    and Dz': "fft (slice_from_step2 1 ?z) = Inr (lincomb a D b D')"
    unfolding slice_lincomb[OF lxy] by (rule Ez, rule Dz)
  have "fft ?z = Inr (butterfly (2 * ?M) (lincomb a E b E') (lincomb a D b D'))"
    using fft_even_Inr[OF _ _ Ez' Dz'] big lz by simp
  then have "fft ?z = Inr (lincomb a (butterfly (2 * ?M) E D) b (butterfly (2 * ?M) E' D'))"
    by (simp only: butterfly_lincomb[OF l])
  with X Y show ?case unfolding lincomb_def by blast
qed

theorem fft_linear_witness:
  "length [1, 2 :: complex] = 2 ^ 1 \<and> length [\<i>, 3 :: complex] = 2 ^ 1 \<and>
   fft [1, 2] = Inr [1 + 2, 1 - 2] \<and> fft [\<i>, 3] = Inr [\<i> + 3, \<i> - 3] \<and>
   fft (vadd (smul 5 [1, 2]) (smul \<i> [\<i>, 3])) =
     Inr (vadd (smul 5 [1 + 2, 1 - 2]) (smul \<i> [\<i> + 3, \<i> - 3]))"
  using fft_linear [of "[1, 2]" 1 "[\<i>, 3]" 5 \<i>] fft_pair [of 1 2] fft_pair [of \<i> 3]
  by simp

text \<open>
  C7. Parseval: for every input \<open>x\<close> of power-of-two length \<open>N\<close>, the sum of the squared
  magnitudes of \<open>fft x\<close> is \<open>N\<close> times the sum of the squared magnitudes of \<open>x\<close>, exactly
  over exact complex arithmetic.
\<close>

theorem fft_parseval:
  "length x = 2 ^ k \<Longrightarrow>
   \<exists>X. fft x = Inr X \<and> energy X = of_nat (length x) * energy x"
proof (induction k arbitrary: x)
  case 0
  then have "length x \<le> 1" "real (length x) = 1" by simp_all
  then show ?case by (simp add: fft_base)
next
  case (Suc k)
  let ?M = "2 ^ k :: nat"
  have len: "length x = 2 * ?M" using Suc.prems by simp
  have big: "1 < length x"
  proof -
    have "0 < ?M" by simp
    with len show ?thesis by linarith
  qed
  have ev: "even (length x)" using len by simp
  have le: "length (slice_from_step2 0 x) = ?M" and lo: "length (slice_from_step2 1 x) = ?M"
    using len by (simp_all add: length_slice_from_step2)
  obtain E where E: "fft (slice_from_step2 0 x) = Inr E"
    and eE: "energy E = of_nat ?M * energy (slice_from_step2 0 x)"
    using Suc.IH[OF le] le by auto
  obtain D where D: "fft (slice_from_step2 1 x) = Inr D"
    and eD: "energy D = of_nat ?M * energy (slice_from_step2 1 x)"
    using Suc.IH[OF lo] lo by auto
  have lE: "length E = ?M" and lD: "length D = ?M"
    using fft_length[OF E] fft_length[OF D] le lo by simp_all
  have X: "fft x = Inr (butterfly (2 * ?M) E D)"
    using fft_even_Inr[OF big ev E D] by (simp only: len)
  have "energy (butterfly (2 * ?M) E D) = 2 * (energy E + energy D)"
    by (rule energy_butterfly[OF lE lD])
  also have "\<dots> = 2 * of_nat ?M *
      (energy (slice_from_step2 0 x) + energy (slice_from_step2 1 x))"
    by (simp only: eE eD distrib_left mult.assoc)
  also have "\<dots> = of_nat (length x) * energy x"
    by (simp only: energy_slices len of_nat_mult of_nat_numeral)
  finally show ?case using X by blast
qed

theorem fft_parseval_witness:
  "length [1, \<i>] = 2 ^ 1 \<and> fft [1, \<i>] = Inr [1 + \<i>, 1 - \<i>] \<and>
   energy [1 + \<i>, 1 - \<i>] = of_nat (length [1, \<i>]) * energy [1, \<i>]"
  using fft_parseval [of "[1, \<i>]" 1] fft_pair [of 1 \<i>] by simp

text \<open>
  C8. Lazy partial validation: for every even \<open>N > 1\<close> that is not a power of two (for
  instance \<open>N = 6\<close>), \<open>fft\<close> returns no result but raises the size-validation error, and
  not at the top level: the top-level invocation passes the check and calls \<open>fft\<close> on its
  even half, and among the invocations below it in the call relation of \<open>fft\<close> there is
  one of odd length greater than 1, which raises the error itself (it makes no call).
  In the trace, more than one invocation is entered, the first of the even length \<open>N\<close>
  and the last of an odd length greater than 1.
\<close>

theorem fft_even_not_pow2_raises_deeper:
  assumes "1 < length x" and "even (length x)" and "\<forall>k. length x \<noteq> 2 ^ k"
  shows "fft x = Inl ValueError \<and>
         fft_rel (slice_from_step2 0 x) x \<and>
         (\<exists>y. tranclp fft_rel y x \<and> odd (length y) \<and> 1 < length y \<and>
              fft y = Inl ValueError \<and> (\<forall>z. \<not> fft_rel z y)) \<and>
         hd (fft_trace x) = length x \<and> 1 < length (fft_trace x) \<and>
         odd (last (fft_trace x)) \<and> 1 < last (fft_trace x)"
proof -
  have f: "fft x = Inl ValueError"
    by (rule fft_not_pow2_Inl[OF assms(1,3)])
  have r: "fft_rel (slice_from_step2 0 x) x"
    by (rule fft_rel_even_half[OF assms(1,2)])
  obtain y where y: "tranclp fft_rel y x" "odd (length y)" "1 < length y"
    using not_pow2_reaches_odd[OF assms] by blast
  have d: "\<exists>y. tranclp fft_rel y x \<and> odd (length y) \<and> 1 < length y \<and>
              fft y = Inl ValueError \<and> (\<forall>z. \<not> fft_rel z y)"
    using y fft_odd[OF y(3,2)] fft_rel_odd_none[OF y(2)] by blast
  have "fft_trace (slice_from_step2 0 x) \<noteq> []"
    using fft_trace_hd by blast
  then have "1 < length (fft_trace x)"
    by (cases "fft_trace (slice_from_step2 0 x)") (simp_all add: fft_trace_even[OF assms(1,2)])
  with f r d fft_trace_hd[of x] fft_Inl_last[OF f] show ?thesis by simp
qed

theorem fft_even_not_pow2_raises_deeper_witness:
  "1 < length [1, 2, 3, 4, 5, 6 :: complex] \<and> even (length [1, 2, 3, 4, 5, 6 :: complex]) \<and>
   (\<forall>k. length [1, 2, 3, 4, 5, 6 :: complex] \<noteq> 2 ^ k) \<and>
   fft [1, 2, 3, 4, 5, 6] = Inl ValueError \<and>
   fft_rel (slice_from_step2 0 [1, 2, 3, 4, 5, 6]) [1, 2, 3, 4, 5, 6] \<and>
   (\<exists>y. tranclp fft_rel y [1, 2, 3, 4, 5, 6] \<and> odd (length y) \<and> 1 < length y \<and>
        fft y = Inl ValueError \<and> (\<forall>z. \<not> fft_rel z y)) \<and>
   hd (fft_trace [1, 2, 3, 4, 5, 6]) = 6 \<and> 1 < length (fft_trace [1, 2, 3, 4, 5, 6]) \<and>
   odd (last (fft_trace [1, 2, 3, 4, 5, 6])) \<and> 1 < last (fft_trace [1, 2, 3, 4, 5, 6])"
proof -
  have l6: "length [1, 2, 3, 4, 5, 6 :: complex] = 6" by simp
  have np: "\<forall>k. length [1, 2, 3, 4, 5, 6 :: complex] \<noteq> 2 ^ k"
    unfolding l6 using six_not_pow2 by blast
  show ?thesis
    using fft_even_not_pow2_raises_deeper [of "[1, 2, 3, 4, 5, 6]", OF _ _ np] np by simp
qed

text \<open>
  C9. For every input of power-of-two length, every invocation of \<open>fft\<close> that is entered,
  at every recursion level, again has a power-of-two length, so the error branch
  (\<open>N > 1\<close> and \<open>N\<close> odd) is never taken, and \<open>fft\<close> returns a complete sequence.
\<close>

theorem fft_pow2_runs_to_completion:
  assumes "length x = 2 ^ k"
  shows "(\<exists>X. fft x = Inr X \<and> length X = length x) \<and>
         (\<forall>n \<in> set (fft_trace x). (\<exists>j. n = 2 ^ j) \<and> \<not> (1 < n \<and> n mod 2 \<noteq> 0))"
proof -
  have "(\<exists>j. n = 2 ^ j) \<and> \<not> (1 < n \<and> n mod 2 \<noteq> 0)" if mem: "n \<in> set (fft_trace x)" for n
  proof -
    obtain j where j: "n = 2 ^ j" using fft_trace_pow2[OF assms mem] by blast
    have "n mod 2 = 0" if big: "1 < n"
    proof (cases j)
      case 0
      with j big show ?thesis by simp
    next
      case (Suc i)
      with j show ?thesis by simp
    qed
    then have "\<not> (1 < n \<and> n mod 2 \<noteq> 0)" by simp
    moreover have "\<exists>i. n = 2 ^ i" using j by (rule exI)
    ultimately show ?thesis by (rule conjI[rotated])
  qed
  with fft_pow2_Inr[OF assms] show ?thesis by blast
qed

theorem fft_pow2_runs_to_completion_witness:
  "length [1, 2 :: complex] = 2 ^ 1 \<and>
   (\<exists>X. fft [1, 2] = Inr X \<and> length X = length [1, 2 :: complex]) \<and>
   length [1, 2 :: complex] \<in> set (fft_trace [1, 2]) \<and>
   (\<exists>j. length [1, 2 :: complex] = 2 ^ j) \<and>
   \<not> (1 < length [1, 2 :: complex] \<and> length [1, 2 :: complex] mod 2 \<noteq> 0)"
proof -
  have m: "length [1, 2 :: complex] \<in> set (fft_trace [1, 2])"
    using fft_trace_hd[of "[1, 2]"] by (metis list.set_sel(1))
  have l: "length [1, 2 :: complex] = 2 ^ 1" by simp
  from fft_pow2_runs_to_completion [OF l] m l show ?thesis by blast
qed

text \<open>
  C10. \<open>fft\<close> terminates on every input, valid or not, returning a result or raising the
  size error. \<open>fft_rel y x\<close> is the call relation of the definition of \<open>fft\<close> (the
  invocation on \<open>x\<close> calls \<open>fft\<close> on \<open>y\<close>) and \<open>fft_dom x\<close> says that the recursion from \<open>x\<close>
  is well-founded. Every recursive call is on a sequence of length \<open>N div 2\<close>, strictly
  shorter than \<open>N > 1\<close>; no precondition is needed.
\<close>

theorem fft_terminates:
  "fft_dom x \<and>
   (fft x = Inl ValueError \<or> (\<exists>X. fft x = Inr X)) \<and>
   (\<forall>y. fft_rel y x \<longrightarrow> length y = length x div 2 \<and> length y < length x \<and> 1 < length x)"
proof (intro conjI allI impI)
  show "fft_dom x"
  proof (induction x rule: measure_induct_rule[of length])
    case (less x)
    show ?case
    proof (rule accpI)
      fix y assume "fft_rel y x"
      then have "length y < length x" using fft_rel_length by blast
      then show "fft_dom y" by (rule less.IH)
    qed
  qed
  show "fft x = Inl ValueError \<or> (\<exists>X. fft x = Inr X)"
    by (cases "fft x") (auto intro: error.exhaust)
qed (use fft_rel_length in blast)+

theorem fft_terminates_witness:
  "fft_dom [1, 2] \<and> fft_rel [1] [1, 2] \<and>
   length [1 :: complex] = length [1, 2 :: complex] div 2 \<and>
   length [1 :: complex] < length [1, 2 :: complex] \<and> 1 < length [1, 2 :: complex]"
proof -
  have "fft_rel (slice_from_step2 0 [1, 2]) [1, 2]"
    by (rule fft_rel.intros(1)[of 2]) simp_all
  then have r: "fft_rel [1] [1, 2]" by (simp add: slice_from_step2_def)
  with fft_terminates [of "[1, 2]"] show ?thesis by blast
qed

end
